theory Spec2Isabelle
  imports Main "HOL-Library.Sublist"
begin

section \<open>Data model\<close>

text \<open>
  The gap filter of \<^verbatim>\<open>src/src/tools/readme.py\<close> works on a Python
  \<^verbatim>\<open>list[tuple[str, str]]\<close>: an ordered list of (header, sequence) pairs. A Python
  \<^verbatim>\<open>str\<close> is modelled as a \<^typ>\<open>string\<close>, one \<^typ>\<open>char\<close> per character of the
  Python string (alignment files are ASCII; the code compares characters only with
  \<^verbatim>\<open>>\<close>, \<^verbatim>\<open>.\<close>, \<^verbatim>\<open>-\<close>, line feed and carriage return).
\<close>

type_synonym record_a2m = "string \<times> string"

type_synonym alignment = "record_a2m list"

text \<open>The exceptions the modelled code can raise.\<close>

datatype error = IndexError | FileNotFoundError

text \<open>Line feed and carriage return, Python's \<^verbatim>\<open>'\n'\<close> and \<^verbatim>\<open>'\r'\<close>.\<close>

abbreviation LF :: char where
  "LF \<equiv> CHR ''\<newline>''"

abbreviation CR :: char where
  "CR \<equiv> CHR 0x0D"

section \<open>\<^verbatim>\<open>read_a2m\<close>\<close>

text \<open>\<^verbatim>\<open>line.rstrip('\n\r')\<close>: drop every trailing line feed and carriage return.\<close>

definition rstrip_nl :: "string \<Rightarrow> string" where
  "rstrip_nl line = rev (dropWhile (\<lambda>c. c = LF \<or> c = CR) (rev line))"

text \<open>\<^verbatim>\<open>line.startswith('>')\<close>.\<close>

fun startswith_gt :: "string \<Rightarrow> bool" where
  "startswith_gt [] = False"
| "startswith_gt (c # cs) = (c = CHR ''>'')"

text \<open>
  The two places of \<^verbatim>\<open>read_a2m\<close> that save the record collected so far:
  \<^verbatim>\<open>if current_header is not None: sequences.append((current_header, ''.join(current_seq)))\<close>.
\<close>

fun save_current :: "alignment \<Rightarrow> string option \<Rightarrow> string list \<Rightarrow> alignment" where
  "save_current sequences None current_seq = sequences"
| "save_current sequences (Some h) current_seq = sequences @ [(h, concat current_seq)]"

text \<open>
  The loop \<^verbatim>\<open>for line in f\<close> with its three variables \<^verbatim>\<open>sequences\<close>,
  \<^verbatim>\<open>current_header\<close> and \<^verbatim>\<open>current_seq\<close>; the first argument is the list of
  lines still to be read, as iterating the file yields them (line terminators included).
  After the last line the last record is saved.
\<close>

fun read_a2m_loop ::
  "string list \<Rightarrow> alignment \<Rightarrow> string option \<Rightarrow> string list \<Rightarrow> alignment" where
  "read_a2m_loop [] sequences current_header current_seq =
     save_current sequences current_header current_seq"
| "read_a2m_loop (raw # rest) sequences current_header current_seq =
     (let line = rstrip_nl raw in
      if startswith_gt line
      then read_a2m_loop rest (save_current sequences current_header current_seq) (Some line) []
      else read_a2m_loop rest sequences current_header (current_seq @ [line]))"

definition read_a2m :: "string list \<Rightarrow> alignment" where
  "read_a2m file_lines = read_a2m_loop file_lines [] None []"

section \<open>\<^verbatim>\<open>remove_query_gaps\<close>\<close>

text \<open>\<^verbatim>\<open>char in '.-'\<close> for a one-character string.\<close>

definition is_gap :: "char \<Rightarrow> bool" where
  "is_gap c = (c = CHR ''.'' \<or> c = CHR ''-'')"

text \<open>\<^verbatim>\<open>[i for i, char in enumerate(query_seq) if char not in '.-']\<close>.\<close>

definition non_gap_positions :: "string \<Rightarrow> nat list" where
  "non_gap_positions query_seq =
     map fst (filter (\<lambda>(i, c). \<not> is_gap c) (enumerate 0 query_seq))"

text \<open>
  \<^verbatim>\<open>seq[i]\<close> for an index \<^verbatim>\<open>i >= 0\<close>: Python raises \<^verbatim>\<open>IndexError\<close> when
  \<^verbatim>\<open>i >= len(seq)\<close>.
\<close>

definition getitem :: "string \<Rightarrow> nat \<Rightarrow> error + char" where
  "getitem seq i = (if i < length seq then Inr (seq ! i) else Inl IndexError)"

text \<open>
  \<^verbatim>\<open>''.join(seq[i] for i in non_gap_positions)\<close>: the generator reads the positions in
  order, and the first index out of range raises.
\<close>

fun join_positions :: "string \<Rightarrow> nat list \<Rightarrow> error + string" where
  "join_positions seq [] = Inr []"
| "join_positions seq (i # is) =
     (case getitem seq i of
        Inl e \<Rightarrow> Inl e
      | Inr c \<Rightarrow> (case join_positions seq is of Inl e \<Rightarrow> Inl e | Inr cs \<Rightarrow> Inr (c # cs)))"

text \<open>
  The loop \<^verbatim>\<open>for header, seq in sequences\<close>, with the accumulator
  \<^verbatim>\<open>cleaned_sequences\<close>; an exception leaves the loop at once.
\<close>

fun clean_loop :: "nat list \<Rightarrow> alignment \<Rightarrow> alignment \<Rightarrow> error + alignment" where
  "clean_loop positions [] cleaned_sequences = Inr cleaned_sequences"
| "clean_loop positions ((header, seq) # rest) cleaned_sequences =
     (case join_positions seq positions of
        Inl e \<Rightarrow> Inl e
      | Inr cleaned_seq \<Rightarrow> clean_loop positions rest (cleaned_sequences @ [(header, cleaned_seq)]))"

fun remove_query_gaps :: "alignment \<Rightarrow> error + alignment" where
  "remove_query_gaps [] = Inr []"
| "remove_query_gaps ((query_header, query_seq) # rest) =
     clean_loop (non_gap_positions query_seq) ((query_header, query_seq) # rest) []"

section \<open>\<^verbatim>\<open>write_a2m\<close>\<close>

text \<open>\<^verbatim>\<open>seq[i:j]\<close> for \<^verbatim>\<open>0 <= i <= j\<close>; a slice is cut at the end of the string.\<close>

definition slice :: "string \<Rightarrow> nat \<Rightarrow> nat \<Rightarrow> string" where
  "slice seq i j = take (j - i) (drop i seq)"

text \<open>
  The loop \<^verbatim>\<open>for i in range(0, len(seq), 80)\<close>, started at \<^verbatim>\<open>i\<close>: the list of
  the slices \<^verbatim>\<open>seq[i:i+80]\<close> it writes, one per line.
\<close>

function chunk_loop :: "nat \<Rightarrow> string \<Rightarrow> string list" where
  "chunk_loop i seq =
     (if i < length seq then slice seq i (i + 80) # chunk_loop (i + 80) seq else [])"
  by pat_completeness auto
termination
  by (relation "measure (\<lambda>(i, seq). length seq - i)") auto

declare chunk_loop.simps [simp del]

text \<open>What one round of \<^verbatim>\<open>for header, seq in sequences\<close> writes to the file.\<close>

definition write_record :: "record_a2m \<Rightarrow> string" where
  "write_record r =
     (case r of (header, seq) \<Rightarrow>
        header @ [LF] @ concat (map (\<lambda>chunk. chunk @ [LF]) (chunk_loop 0 seq)))"

text \<open>The text \<^verbatim>\<open>write_a2m\<close> writes to the (truncated) file.\<close>

definition write_a2m :: "alignment \<Rightarrow> string" where
  "write_a2m sequences = concat (map write_record sequences)"

section \<open>The standalone script\<close>

text \<open>
  \<^verbatim>\<open>src/script/rm_a2m_query_gaps.py\<close> defines its own \<^verbatim>\<open>read_a2m\<close>,
  \<^verbatim>\<open>remove_query_gaps\<close> and \<^verbatim>\<open>write_a2m\<close>; they are translated here from that
  file, with the prefix \<open>script_\<close>.
\<close>

fun script_read_a2m_loop ::
  "string list \<Rightarrow> alignment \<Rightarrow> string option \<Rightarrow> string list \<Rightarrow> alignment" where
  "script_read_a2m_loop [] sequences current_header current_seq =
     (case current_header of
        None \<Rightarrow> sequences
      | Some h \<Rightarrow> sequences @ [(h, concat current_seq)])"
| "script_read_a2m_loop (raw # rest) sequences current_header current_seq =
     (let line = rstrip_nl raw in
      if startswith_gt line
      then script_read_a2m_loop rest
             (case current_header of
                None \<Rightarrow> sequences
              | Some h \<Rightarrow> sequences @ [(h, concat current_seq)])
             (Some line) []
      else script_read_a2m_loop rest sequences current_header (current_seq @ [line]))"

definition script_read_a2m :: "string list \<Rightarrow> alignment" where
  "script_read_a2m file_lines = script_read_a2m_loop file_lines [] None []"

fun script_clean_loop :: "nat list \<Rightarrow> alignment \<Rightarrow> alignment \<Rightarrow> error + alignment" where
  "script_clean_loop positions [] cleaned_sequences = Inr cleaned_sequences"
| "script_clean_loop positions ((header, seq) # rest) cleaned_sequences =
     (case join_positions seq positions of
        Inl e \<Rightarrow> Inl e
      | Inr cleaned_seq \<Rightarrow>
          script_clean_loop positions rest (cleaned_sequences @ [(header, cleaned_seq)]))"

definition script_remove_query_gaps :: "alignment \<Rightarrow> error + alignment" where
  "script_remove_query_gaps sequences =
     (if sequences = [] then Inr sequences
      else script_clean_loop (non_gap_positions (snd (hd sequences))) sequences [])"

fun script_write_a2m :: "alignment \<Rightarrow> string" where
  "script_write_a2m [] = []"
| "script_write_a2m ((header, seq) # rest) =
     header @ [LF] @ concat (map (\<lambda>chunk. chunk @ [LF]) (chunk_loop 0 seq))
     @ script_write_a2m rest"

section \<open>The cleaning stage of \<^verbatim>\<open>convert_a3m_to_a2m\<close>\<close>

text \<open>
  A file store maps a path to the text of the file. \<^verbatim>\<open>open(filename, 'r')\<close> reads
  with universal newlines: a carriage return, alone or followed by a line feed, is read
  as a line feed, and iterating the file yields the text cut after every line feed.
\<close>

type_synonym store = "string \<Rightarrow> string option"

fun universal_newlines :: "string \<Rightarrow> string" where
  "universal_newlines [] = []"
| "universal_newlines [c] = [if c = CR then LF else c]"
| "universal_newlines (c # d # cs) =
     (if c = CR \<and> d = LF then LF # universal_newlines cs
      else if c = CR then LF # universal_newlines (d # cs)
      else c # universal_newlines (d # cs))"

fun split_lines_acc :: "string \<Rightarrow> string \<Rightarrow> string list" where
  "split_lines_acc [] cur = (if cur = [] then [] else [cur])"
| "split_lines_acc (c # cs) cur =
     (if c = LF then (cur @ [c]) # split_lines_acc cs [] else split_lines_acc cs (cur @ [c]))"

definition iter_lines :: "string \<Rightarrow> string list" where
  "iter_lines text = split_lines_acc (universal_newlines text) []"

text \<open>
  Lines 187 to 208 of \<^verbatim>\<open>convert_a3m_to_a2m\<close>, on the store that the external
  converter has left: read the file, and if it holds a record, filter it and write the
  result over the file. The result is the exception raised (if any) and the store
  afterwards; the messages printed are left out.
\<close>

definition clean_converted :: "store \<Rightarrow> string \<Rightarrow> (error + unit) \<times> store" where
  "clean_converted fs a2m_file =
     (case fs a2m_file of
        None \<Rightarrow> (Inl FileNotFoundError, fs)
      | Some text \<Rightarrow>
          (let sequences = read_a2m (iter_lines text) in
           if sequences \<noteq> []
           then (case remove_query_gaps sequences of
                   Inl e \<Rightarrow> (Inl e, fs)
                 | Inr cleaned_sequences \<Rightarrow>
                     (Inr (), fs(a2m_file \<mapsto> write_a2m cleaned_sequences)))
           else (Inr (), fs)))"

section \<open>Specification functions\<close>

text \<open>
  A record projected onto a list of column indices: the header kept, the sequence read
  at each index in turn. The theorems below describe \<^const>\<open>remove_query_gaps\<close> with it.
\<close>

fun project :: "nat list \<Rightarrow> record_a2m \<Rightarrow> record_a2m" where
  "project ps (h, s) = (h, map ((!) s) ps)"

section \<open>Auxiliary lemmas\<close>

lemma enumerate_filter_fst:
  "map fst (filter (\<lambda>(i, c). P c) (enumerate n xs)) =
   filter (\<lambda>i. P (xs ! (i - n))) [n..<n + length xs]"
proof (induction xs arbitrary: n)
  case Nil
  then show ?case by simp
next
  case (Cons x xs)
  have shift: "filter (\<lambda>i. P ((x # xs) ! (i - n))) [Suc n..<Suc n + length xs] =
        filter (\<lambda>i. P (xs ! (i - Suc n))) [Suc n..<Suc n + length xs]"
  proof (rule filter_cong)
    fix i assume "i \<in> set [Suc n..<Suc n + length xs]"
    then have "i - n = Suc (i - Suc n)" by auto
    then show "P ((x # xs) ! (i - n)) = P (xs ! (i - Suc n))" by simp
  qed simp
  have upt: "[n..<n + length (x # xs)] = n # [Suc n..<Suc n + length xs]"
    using upt_conv_Cons[of n "Suc n + length xs"] by (simp del: upt_Suc)
  have "map fst (filter (\<lambda>(i, c). P c) (enumerate n (x # xs))) =
        (if P x then [n] else []) @ map fst (filter (\<lambda>(i, c). P c) (enumerate (Suc n) xs))"
    by simp
  also have "\<dots> = (if P x then [n] else []) @
        filter (\<lambda>i. P (xs ! (i - Suc n))) [Suc n..<Suc n + length xs]"
    by (simp only: Cons.IH)
  also have "\<dots> = filter (\<lambda>i. P ((x # xs) ! (i - n))) (n # [Suc n..<Suc n + length xs])"
    by (simp only: shift[symmetric]) simp
  finally show ?case by (simp only: upt)
qed

lemma non_gap_positions_filter:
  "non_gap_positions s = filter (\<lambda>i. \<not> is_gap (s ! i)) [0..<length s]"
  using enumerate_filter_fst[of "\<lambda>c. \<not> is_gap c" 0 s]
  by (simp add: non_gap_positions_def)

lemma enumerate_filter_length:
  "length (filter (\<lambda>(i, c). P c) (enumerate n xs)) = length (filter P xs)"
  by (induction xs arbitrary: n) auto

lemma length_non_gap_positions:
  "length (non_gap_positions s) = length (filter (\<lambda>c. \<not> is_gap c) s)"
  by (simp add: non_gap_positions_def enumerate_filter_length)

lemma join_positions_in_range:
  "\<forall>i\<in>set ps. i < length seq \<Longrightarrow> join_positions seq ps = Inr (map ((!) seq) ps)"
  by (induction ps) (simp_all add: getitem_def)

lemma join_positions_out_of_range:
  "\<exists>i\<in>set ps. length seq \<le> i \<Longrightarrow> join_positions seq ps = Inl IndexError"
proof (induction ps)
  case Nil
  then show ?case by simp
next
  case (Cons p ps)
  show ?case
  proof (cases "p < length seq")
    case False
    then show ?thesis by (simp add: getitem_def)
  next
    case True
    with Cons.prems have "\<exists>i\<in>set ps. length seq \<le> i" by auto
    with Cons.IH True show ?thesis by (simp add: getitem_def)
  qed
qed

lemma clean_loop_ok:
  "\<forall>r\<in>set recs. \<forall>i\<in>set ps. i < length (snd r) \<Longrightarrow>
   clean_loop ps recs acc = Inr (acc @ map (project ps) recs)"
  by (induction recs arbitrary: acc) (auto simp: join_positions_in_range)

lemma clean_loop_fail:
  "\<exists>r\<in>set recs. \<exists>i\<in>set ps. length (snd r) \<le> i \<Longrightarrow>
   clean_loop ps recs acc = Inl IndexError"
proof (induction recs arbitrary: acc)
  case Nil
  then show ?case by simp
next
  case (Cons r recs)
  obtain h s where r: "r = (h, s)" by (cases r)
  show ?case
  proof (cases "\<exists>i\<in>set ps. length s \<le> i")
    case True
    then show ?thesis by (simp add: r join_positions_out_of_range)
  next
    case False
    then have ok: "\<forall>i\<in>set ps. i < length s" by (auto simp: not_le)
    from False Cons.prems r have "\<exists>r\<in>set recs. \<exists>i\<in>set ps. length (snd r) \<le> i" by auto
    then show ?thesis by (simp add: r join_positions_in_range[OF ok] Cons.IH)
  qed
qed

lemma clean_loop_Inr_iff:
  "clean_loop ps recs acc = Inr out \<longleftrightarrow>
     (\<forall>r\<in>set recs. \<forall>i\<in>set ps. i < length (snd r)) \<and> out = acc @ map (project ps) recs"
proof (cases "\<forall>r\<in>set recs. \<forall>i\<in>set ps. i < length (snd r)")
  case True
  then show ?thesis by (auto simp: clean_loop_ok)
next
  case False
  then have "\<exists>r\<in>set recs. \<exists>i\<in>set ps. length (snd r) \<le> i" by (auto simp: not_less)
  then have "clean_loop ps recs acc = Inl IndexError" by (rule clean_loop_fail)
  with False show ?thesis by simp
qed

lemma remove_query_gaps_Inr_iff:
  "remove_query_gaps ((qh, qs) # rest) = Inr out \<longleftrightarrow>
     (\<forall>r\<in>set ((qh, qs) # rest). \<forall>i\<in>set (non_gap_positions qs). i < length (snd r)) \<and>
     out = map (project (non_gap_positions qs)) ((qh, qs) # rest)"
  using clean_loop_Inr_iff[of "non_gap_positions qs" "(qh, qs) # rest" "[]" out] by simp

lemma remove_query_gaps_Inl:
  "\<exists>r\<in>set ((qh, qs) # rest). \<exists>i\<in>set (non_gap_positions qs). length (snd r) \<le> i \<Longrightarrow>
   remove_query_gaps ((qh, qs) # rest) = Inl IndexError"
  using clean_loop_fail[of "(qh, qs) # rest" "non_gap_positions qs" "[]"] by simp

lemma set_non_gap_positions:
  "set (non_gap_positions s) = {i. i < length s \<and> \<not> is_gap (s ! i)}"
  by (auto simp: non_gap_positions_filter)

lemma sorted_non_gap_positions: "sorted_wrt (<) (non_gap_positions s)"
  by (simp add: non_gap_positions_filter sorted_wrt_filter)

lemma subseq_map_nth_from:
  "sorted_wrt (<) ps \<Longrightarrow> \<forall>i\<in>set ps. n \<le> i \<and> i < length s \<Longrightarrow>
   subseq (map ((!) s) ps) (drop n s)"
proof (induction ps arbitrary: n)
  case Nil
  then show ?case by simp
next
  case (Cons p ps)
  from Cons.prems have p: "n \<le> p" "p < length s" by auto
  from Cons.prems have "\<forall>i\<in>set ps. Suc p \<le> i \<and> i < length s" by auto
  moreover from Cons.prems have "sorted_wrt (<) ps" by simp
  ultimately have "subseq (map ((!) s) ps) (drop (Suc p) s)" by (rule Cons.IH[rotated])
  then have "subseq (s ! p # map ((!) s) ps) (s ! p # drop (Suc p) s)" by simp
  then have "subseq (map ((!) s) (p # ps)) (drop p s)"
    using p(2) by (simp add: Cons_nth_drop_Suc)
  moreover have "drop n s = take (p - n) (drop n s) @ drop p s"
    using p(1) by (metis append_take_drop_id drop_drop le_add_diff_inverse2)
  ultimately show ?case by (metis list_emb_append2)
qed

lemma subseq_map_nth:
  "sorted_wrt (<) ps \<Longrightarrow> \<forall>i\<in>set ps. i < length s \<Longrightarrow> subseq (map ((!) s) ps) s"
  using subseq_map_nth_from[of ps 0 s] by simp

lemma concat_chunk_loop: "concat (chunk_loop i seq) = drop i seq"
proof (induction i seq rule: chunk_loop.induct)
  case (1 i seq)
  show ?case
  proof (cases "i < length seq")
    case True
    have "take 80 (drop i seq) @ drop (i + 80) seq = drop i seq"
      by (metis add.commute append_take_drop_id drop_drop)
    with True 1 show ?thesis
      by (subst chunk_loop.simps) (simp add: slice_def)
  next
    case False
    then show ?thesis by (subst chunk_loop.simps) simp
  qed
qed

lemma length_chunk_loop: "length (chunk_loop i seq) = (length seq - i + 79) div 80"
proof (induction i seq rule: chunk_loop.induct)
  case (1 i seq)
  show ?case
  proof (cases "i < length seq")
    case True
    then have "(length seq - i + 79) div 80 = Suc ((length seq - (i + 80) + 79) div 80)"
      by (cases "i + 80 \<le> length seq") (simp_all add: div_eq_0_iff Suc_diff_le le_div_geq)
    with True 1 show ?thesis
      by (subst chunk_loop.simps) simp
  next
    case False
    then show ?thesis by (subst chunk_loop.simps) simp
  qed
qed

lemma chunk_loop_nth:
  "k < length (chunk_loop i seq) \<Longrightarrow> chunk_loop i seq ! k = take 80 (drop (i + 80 * k) seq)"
proof (induction i seq arbitrary: k rule: chunk_loop.induct)
  case (1 i seq)
  show ?case
  proof (cases "i < length seq")
    case True
    then have unf: "chunk_loop i seq = slice seq i (i + 80) # chunk_loop (i + 80) seq"
      by (subst chunk_loop.simps) simp
    show ?thesis
    proof (cases k)
      case 0
      then show ?thesis by (simp add: unf slice_def)
    next
      case (Suc k')
      with "1.prems" unf have "k' < length (chunk_loop (i + 80) seq)" by simp
      from "1.IH"[OF True this] Suc show ?thesis by (simp add: unf add.assoc)
    qed
  next
    case False
    then have "chunk_loop i seq = []" by (subst chunk_loop.simps) simp
    with "1.prems" show ?thesis by simp
  qed
qed

lemma script_read_a2m_loop_eq:
  "script_read_a2m_loop ls sequences current_header current_seq =
   read_a2m_loop ls sequences current_header current_seq"
proof (induction ls arbitrary: sequences current_header current_seq)
  case Nil
  then show ?case by (cases current_header) simp_all
next
  case (Cons raw rest)
  then show ?case by (cases current_header) (simp_all add: Let_def)
qed

lemma script_clean_loop_eq:
  "script_clean_loop positions recs cleaned = clean_loop positions recs cleaned"
  by (induction positions recs cleaned rule: clean_loop.induct) (simp_all split: sum.splits)

lemma script_write_a2m_eq: "script_write_a2m recs = concat (map write_record recs)"
  by (induction recs rule: script_write_a2m.induct) (simp_all add: write_record_def)

lemma read_a2m_loop_no_header_seq:
  "read_a2m_loop ls sequences None cs = read_a2m_loop ls sequences None cs'"
  by (induction ls arbitrary: cs cs') (simp_all add: Let_def)

lemma read_a2m_loop_skip:
  "\<forall>l\<in>set pre. \<not> startswith_gt (rstrip_nl l) \<Longrightarrow>
   read_a2m_loop (pre @ rest) sequences None cs = read_a2m_loop rest sequences None cs"
proof (induction pre arbitrary: cs)
  case Nil
  then show ?case by simp
next
  case (Cons l pre)
  then have "read_a2m_loop ((l # pre) @ rest) sequences None cs =
             read_a2m_loop rest sequences None (cs @ [rstrip_nl l])"
    by (simp add: Let_def)
  also have "\<dots> = read_a2m_loop rest sequences None cs"
    by (rule read_a2m_loop_no_header_seq)
  finally show ?case .
qed

lemma clean_converted_raises:
  "fs a2m_file = Some text \<Longrightarrow> read_a2m (iter_lines text) = q # rest \<Longrightarrow>
   remove_query_gaps (q # rest) = Inl e \<Longrightarrow> clean_converted fs a2m_file = (Inl e, fs)"
  by (simp add: clean_converted_def del: remove_query_gaps.simps)

lemma clean_converted_writes:
  "fs a2m_file = Some text \<Longrightarrow> read_a2m (iter_lines text) = q # rest \<Longrightarrow>
   remove_query_gaps (q # rest) = Inr cleaned \<Longrightarrow>
   clean_converted fs a2m_file = (Inr (), fs(a2m_file \<mapsto> write_a2m cleaned))"
  by (simp add: clean_converted_def del: remove_query_gaps.simps)

lemma non_gap_positions_lt: "i \<in> set (non_gap_positions s) \<Longrightarrow> i < length s"
  by (simp add: set_non_gap_positions)

lemma project_take:
  "\<forall>i\<in>set ps. i < n \<Longrightarrow> project ps (h, take n s) = project ps (h, s)"
  by simp

lemma non_gap_positions_gap_free:
  "\<forall>c\<in>set s. \<not> is_gap c \<Longrightarrow> non_gap_positions s = [0..<length s]"
  by (simp add: non_gap_positions_filter)

lemma project_upt_iff:
  "(\<forall>i\<in>set [0..<n]. i < length s) \<and> project [0..<n] (h, s) = (h, s) \<longleftrightarrow> length s = n"
proof
  assume a: "(\<forall>i\<in>set [0..<n]. i < length s) \<and> project [0..<n] (h, s) = (h, s)"
  then have "length (map ((!) s) [0..<n]) = length s" by simp
  then show "length s = n" by simp
next
  assume "length s = n"
  then show "(\<forall>i\<in>set [0..<n]. i < length s) \<and> project [0..<n] (h, s) = (h, s)"
    by (auto simp: map_nth)
qed

section \<open>Length of the filtered records\<close>

text \<open>
  C1. When the alignment is not empty and every record is long enough for every retained
  column index, \<^const>\<open>remove_query_gaps\<close> returns one record for every record of the
  input, and at every record index \<open>k\<close> the returned sequence is as long as the number
  of characters of the first (reference) sequence that are neither \<^verbatim>\<open>.\<close> nor
  \<^verbatim>\<open>-\<close>.
\<close>

theorem filter_length_invariant:
  assumes "\<forall>r\<in>set ((query_header, query_seq) # rest).
             \<forall>i\<in>set (non_gap_positions query_seq). i < length (snd r)"
  shows "\<exists>cleaned. remove_query_gaps ((query_header, query_seq) # rest) = Inr cleaned \<and>
           length cleaned = length ((query_header, query_seq) # rest) \<and>
           (\<forall>k<length ((query_header, query_seq) # rest).
              length (snd (cleaned ! k)) =
                length (filter (\<lambda>c. c \<noteq> CHR ''.'' \<and> c \<noteq> CHR ''-'') query_seq))"
proof -
  let ?ps = "non_gap_positions query_seq"
  let ?inp = "(query_header, query_seq) # rest"
  let ?out = "map (project ?ps) ?inp"
  have run: "remove_query_gaps ?inp = Inr ?out"
    using assms remove_query_gaps_Inr_iff[of query_header query_seq rest ?out] by blast
  have count: "length ?ps = length (filter (\<lambda>c. c \<noteq> CHR ''.'' \<and> c \<noteq> CHR ''-'') query_seq)"
    by (simp add: length_non_gap_positions is_gap_def)
  have len: "length ?out = length ?inp" by simp
  have each: "length (snd (?out ! k)) = length ?ps" if "k < length ?inp" for k
  proof -
    obtain h s where r: "?inp ! k = (h, s)" by (cases "?inp ! k")
    from that have "?out ! k = project ?ps (?inp ! k)" by (rule nth_map)
    with r show ?thesis by simp
  qed
  from run len each count show ?thesis by metis
qed

text \<open>Scenario 1 of the specification: one gap column, four columns kept in both records.\<close>

theorem filter_length_invariant_witness:
  "\<exists>cleaned. remove_query_gaps [(''>ref'', ''AC-GT''), (''>s1'', ''AG-GA'')] = Inr cleaned \<and>
     length cleaned = 2 \<and> length (snd (cleaned ! 0)) = 4 \<and> length (snd (cleaned ! 1)) = 4"
proof -
  have hyp: "\<forall>r\<in>set [(''>ref'', ''AC-GT''), (''>s1'', ''AG-GA'')].
      \<forall>i\<in>set (non_gap_positions ''AC-GT''). i < length (snd r)"
    by (simp add: non_gap_positions_def is_gap_def)
  have count: "length (filter (\<lambda>c. c \<noteq> CHR ''.'' \<and> c \<noteq> CHR ''-'') ''AC-GT'') = 4"
    by simp
  from filter_length_invariant[OF hyp]
  obtain cleaned where
    run: "remove_query_gaps [(''>ref'', ''AC-GT''), (''>s1'', ''AG-GA'')] = Inr cleaned" and
    len: "length cleaned = length [(''>ref'', ''AC-GT''), (''>s1'', ''AG-GA'')]" and
    each: "\<forall>k<length [(''>ref'', ''AC-GT''), (''>s1'', ''AG-GA'')].
             length (snd (cleaned ! k)) =
               length (filter (\<lambda>c. c \<noteq> CHR ''.'' \<and> c \<noteq> CHR ''-'') ''AC-GT'')"
    by blast
  from len have two: "length cleaned = 2" by simp
  from each have first: "length (snd (cleaned ! 0)) = 4" by (simp only: count) simp
  from each have second: "length (snd (cleaned ! 1)) = 4" by (simp only: count) simp
  from run two first second show ?thesis by blast
qed

section \<open>Retained columns and their order\<close>

text \<open>
  C4. The retained column indices are exactly the zero-based indices of the reference
  whose character is neither \<^verbatim>\<open>.\<close> nor \<^verbatim>\<open>-\<close>, in strictly ascending order;
  every record returned by \<^const>\<open>remove_query_gaps\<close> holds the characters of its input
  record at these indices, in this order, so it is a subsequence of the input record:
  characters are deleted, never reordered.
\<close>

theorem retained_columns_order:
  "non_gap_positions reference =
     filter (\<lambda>i. reference ! i \<noteq> CHR ''.'' \<and> reference ! i \<noteq> CHR ''-'') [0..<length reference] \<and>
   sorted_wrt (<) (non_gap_positions reference) \<and>
   (remove_query_gaps ((query_header, reference) # rest) = Inr cleaned \<longrightarrow>
      (\<forall>k<length cleaned.
         snd (cleaned ! k) =
           map ((!) (snd (((query_header, reference) # rest) ! k))) (non_gap_positions reference) \<and>
         subseq (snd (cleaned ! k)) (snd (((query_header, reference) # rest) ! k))))"
proof (intro conjI impI allI)
  show "non_gap_positions reference =
     filter (\<lambda>i. reference ! i \<noteq> CHR ''.'' \<and> reference ! i \<noteq> CHR ''-'') [0..<length reference]"
    by (simp add: non_gap_positions_filter is_gap_def)
  show "sorted_wrt (<) (non_gap_positions reference)"
    by (rule sorted_non_gap_positions)
next
  fix k
  let ?ps = "non_gap_positions reference"
  let ?inp = "(query_header, reference) # rest"
  assume run: "remove_query_gaps ?inp = Inr cleaned" and k: "k < length cleaned"
  from run have ok: "\<forall>r\<in>set ?inp. \<forall>i\<in>set ?ps. i < length (snd r)"
    and out: "cleaned = map (project ?ps) ?inp"
    using remove_query_gaps_Inr_iff[of query_header reference rest cleaned] by blast+
  from k out have kin: "k < length ?inp" by simp
  obtain h s where r: "?inp ! k = (h, s)" by (cases "?inp ! k")
  from kin have "?inp ! k \<in> set ?inp" by (rule nth_mem)
  with ok r have inr: "\<forall>i\<in>set ?ps. i < length s" by fastforce
  from out kin r have ck: "cleaned ! k = (h, map ((!) s) ?ps)" by (simp only: nth_map project.simps)
  show "snd (cleaned ! k) = map ((!) (snd (?inp ! k))) ?ps"
    by (simp only: ck r snd_conv)
  show "subseq (snd (cleaned ! k)) (snd (?inp ! k))"
    using subseq_map_nth[OF sorted_non_gap_positions inr] by (simp only: ck r snd_conv)
qed

text \<open>Scenario 2 of the specification.\<close>

theorem retained_columns_order_witness:
  "non_gap_positions ''A.C.G'' = [0, 2, 4] \<and>
   remove_query_gaps [(''>ref'', ''A.C.G''), (''>s1'', ''AXCXG'')] =
     Inr [(''>ref'', ''ACG''), (''>s1'', ''ACG'')] \<and>
   subseq ''ACG'' ''AXCXG''"
proof -
  have ngp: "non_gap_positions ''A.C.G'' = [0, 2, 4]"
    by (simp add: non_gap_positions_def is_gap_def)
  have run: "remove_query_gaps [(''>ref'', ''A.C.G''), (''>s1'', ''AXCXG'')] =
     Inr [(''>ref'', ''ACG''), (''>s1'', ''ACG'')]"
    by (simp add: ngp getitem_def)
  from retained_columns_order[of "''A.C.G''" "''>ref''" "[(''>s1'', ''AXCXG'')]"
      "[(''>ref'', ''ACG''), (''>s1'', ''ACG'')]"] run
  have "subseq (snd ([(''>ref'', ''ACG''), (''>s1'', ''ACG'')] ! 1))
          (snd ([(''>ref'', ''A.C.G''), (''>s1'', ''AXCXG'')] ! 1))"
    by (simp del: subseq_Cons2_iff)
  then have "subseq ''ACG'' ''AXCXG''" by simp
  with ngp run show ?thesis by simp
qed

section \<open>Record count and labels\<close>

text \<open>
  C6. When \<^const>\<open>remove_query_gaps\<close> returns, the result has as many records as the
  input, and the headers of the result are the headers of the input, in the same order.
\<close>

theorem filter_preserves_records_and_labels:
  "remove_query_gaps sequences = Inr cleaned \<Longrightarrow>
   length cleaned = length sequences \<and> map fst cleaned = map fst sequences"
proof (cases sequences)
  case Nil
  assume "remove_query_gaps sequences = Inr cleaned"
  with Nil show ?thesis by simp
next
  case (Cons q rest)
  obtain qh qs where q: "q = (qh, qs)" by (cases q)
  assume "remove_query_gaps sequences = Inr cleaned"
  with Cons q have out: "cleaned = map (project (non_gap_positions qs)) sequences"
    by (simp only: remove_query_gaps_Inr_iff)
  have "map fst (map (project ps) recs) = map fst recs" for ps recs
    by (induction recs) auto
  with out show ?thesis by simp
qed

theorem filter_preserves_records_and_labels_witness:
  "length [(''>ref'', ''ACGT''), (''>s1'', ''AGGA'')] = length [(''>ref'', ''AC-GT''), (''>s1'', ''AG-GA'')] \<and>
   map fst [(''>ref'', ''ACGT''), (''>s1'', ''AGGA'')] = [''>ref'', ''>s1'']"
proof -
  have "remove_query_gaps [(''>ref'', ''AC-GT''), (''>s1'', ''AG-GA'')] =
        Inr [(''>ref'', ''ACGT''), (''>s1'', ''AGGA'')]"
    by (simp add: non_gap_positions_def is_gap_def getitem_def)
  from filter_preserves_records_and_labels[OF this] show ?thesis by simp
qed

section \<open>Empty input\<close>

text \<open>
  C8. The empty text has no lines; for an input with no lines \<^const>\<open>read_a2m\<close>
  returns the empty list, \<^const>\<open>remove_query_gaps\<close> returns the empty list it is
  given, and \<^const>\<open>write_a2m\<close> of the empty list writes the empty text.
\<close>

theorem empty_input_pipeline:
  "iter_lines [] = [] \<and> read_a2m [] = [] \<and> remove_query_gaps [] = Inr [] \<and> write_a2m [] = []"
  by (simp add: iter_lines_def read_a2m_def write_a2m_def)

section \<open>Content before the first header\<close>

text \<open>
  C3 (as amended). \<^const>\<open>read_a2m\<close> raises no error on any input. Lines before the first
  line that starts with \<^verbatim>\<open>>\<close> are dropped: when no line of \<open>pre\<close> is a header
  line, reading \<open>pre\<close> followed by \<open>rest\<close> gives what reading \<open>rest\<close> alone gives.
\<close>

theorem read_a2m_ignores_leading_lines:
  "\<forall>l\<in>set pre. \<not> startswith_gt (rstrip_nl l) \<Longrightarrow> read_a2m (pre @ rest) = read_a2m rest"
  by (simp add: read_a2m_def read_a2m_loop_skip)

theorem read_a2m_ignores_leading_lines_witness:
  "read_a2m ([''junk\<newline>''] @ [''>a\<newline>'', ''AC\<newline>'']) = [(''>a'', ''AC'')]"
proof -
  have "\<forall>l\<in>set [''junk\<newline>'']. \<not> startswith_gt (rstrip_nl l)"
    by (simp add: rstrip_nl_def)
  from read_a2m_ignores_leading_lines[OF this, of "[''>a\<newline>'', ''AC\<newline>'']"]
  show ?thesis by (simp add: read_a2m_def rstrip_nl_def)
qed

text \<open>
  The claim as stated fails: the text below has the non-empty line \<^verbatim>\<open>junk\<close> before
  its first header line; \<^const>\<open>read_a2m\<close> returns the one record that follows, and the
  cleaning stage returns without an error and writes that record.
\<close>

theorem read_a2m_accepts_leading_content:
  "read_a2m (iter_lines ''junk\<newline>>a\<newline>AC\<newline>'') = [(''>a'', ''AC'')] \<and>
   clean_converted (\<lambda>p. if p = ''x.a2m'' then Some ''junk\<newline>>a\<newline>AC\<newline>'' else None) ''x.a2m'' =
     (Inr (), \<lambda>p. if p = ''x.a2m'' then Some ''>a\<newline>AC\<newline>'' else None)"
proof -
  have parse: "read_a2m (iter_lines ''junk\<newline>>a\<newline>AC\<newline>'') = [(''>a'', ''AC'')]"
    by (simp add: iter_lines_def read_a2m_def rstrip_nl_def)
  have filt: "remove_query_gaps [(''>a'', ''AC'')] = Inr [(''>a'', ''AC'')]"
    by (simp add: non_gap_positions_def is_gap_def getitem_def)
  have out: "write_a2m [(''>a'', ''AC'')] = ''>a\<newline>AC\<newline>''"
    by (simp add: write_a2m_def write_record_def chunk_loop.simps slice_def)
  show ?thesis
    by (auto simp add: clean_converted_def parse filt out simp del: remove_query_gaps.simps)
qed

section \<open>Line wrapping\<close>

text \<open>
  C7. \<^const>\<open>write_a2m\<close> writes, for each record in order, the header followed by a line
  feed and then the lines of the sequence, each followed by a line feed. The lines of a
  sequence, put together, are the sequence; line \<open>k\<close> is the 80 characters from
  position \<open>80 * k\<close> on, cut at the end of the sequence: no line is empty, none is
  longer than 80, and every line but the last has exactly 80 characters.
\<close>

theorem write_a2m_line_wrap:
  "write_a2m sequences =
     concat (map (\<lambda>(header, seq).
                    header @ [LF] @ concat (map (\<lambda>line. line @ [LF]) (chunk_loop 0 seq)))
                 sequences) \<and>
   concat (chunk_loop 0 seq) = seq \<and>
   (\<forall>k<length (chunk_loop 0 seq).
      chunk_loop 0 seq ! k = take 80 (drop (80 * k) seq) \<and>
      0 < length (chunk_loop 0 seq ! k) \<and> length (chunk_loop 0 seq ! k) \<le> 80 \<and>
      (Suc k < length (chunk_loop 0 seq) \<longrightarrow> length (chunk_loop 0 seq ! k) = 80))"
proof (intro conjI allI impI)
  have "write_record = (\<lambda>(header, seq).
          header @ [LF] @ concat (map (\<lambda>line. line @ [LF]) (chunk_loop 0 seq)))"
    by (rule ext) (simp add: write_record_def)
  then show "write_a2m sequences =
     concat (map (\<lambda>(header, seq).
                    header @ [LF] @ concat (map (\<lambda>line. line @ [LF]) (chunk_loop 0 seq)))
                 sequences)"
    by (simp only: write_a2m_def)
  show "concat (chunk_loop 0 seq) = seq"
    by (simp add: concat_chunk_loop)
next
  fix k assume k: "k < length (chunk_loop 0 seq)"
  then show nth: "chunk_loop 0 seq ! k = take 80 (drop (80 * k) seq)"
    using chunk_loop_nth[of k 0 seq] by simp
  from k have lt: "80 * k < length seq"
    by (simp add: length_chunk_loop)
  then show "0 < length (chunk_loop 0 seq ! k)" by (simp add: nth)
  show "length (chunk_loop 0 seq ! k) \<le> 80" by (simp add: nth)
  assume "Suc k < length (chunk_loop 0 seq)"
  then have "80 * k + 80 \<le> length seq"
    by (simp add: length_chunk_loop)
  then show "length (chunk_loop 0 seq ! k) = 80" by (simp add: nth)
qed

theorem write_a2m_line_wrap_witness:
  "write_a2m [(''>ref'', ''ACGT'')] = ''>ref'' @ [LF] @ ''ACGT'' @ [LF] \<and>
   concat (chunk_loop 0 (replicate 81 (CHR ''A''))) = replicate 81 (CHR ''A'') \<and>
   length (chunk_loop 0 (replicate 81 (CHR ''A''))) = 2 \<and>
   length (chunk_loop 0 (replicate 81 (CHR ''A'')) ! 0) = 80 \<and>
   length (chunk_loop 0 (replicate 81 (CHR ''A'')) ! 1) = 1"
proof -
  let ?s = "replicate 81 (CHR ''A'')"
  have len: "length (chunk_loop 0 ?s) = 2"
    by (simp add: length_chunk_loop)
  have short: "chunk_loop 0 ''ACGT'' = [''ACGT'']"
    by (simp add: chunk_loop.simps slice_def)
  note w = write_a2m_line_wrap[of "[(''>ref'', ''ACGT'')]" ?s]
  from w have "write_a2m [(''>ref'', ''ACGT'')] = ''>ref'' @ [LF] @ ''ACGT'' @ [LF]"
    by (simp add: short)
  moreover from w have "concat (chunk_loop 0 ?s) = ?s" by blast
  moreover from w len have "length (chunk_loop 0 ?s ! 0) = 80" by simp
  moreover have "length (chunk_loop 0 ?s ! 1) = 1"
  proof -
    from w have "\<forall>k<length (chunk_loop 0 ?s). chunk_loop 0 ?s ! k = take 80 (drop (80 * k) ?s)"
      by blast
    with len have "chunk_loop 0 ?s ! 1 = take 80 (drop (80 * 1) ?s)" by simp
    then show ?thesis by simp
  qed
  ultimately show ?thesis using len by blast
qed

section \<open>The script and the tool module\<close>

text \<open>
  C10. The functions \<^verbatim>\<open>read_a2m\<close>, \<^verbatim>\<open>remove_query_gaps\<close> and \<^verbatim>\<open>write_a2m\<close>
  of the standalone script return, on every input, what the functions of the same names
  in the tool module return.
\<close>

theorem script_equals_tool_module:
  "script_read_a2m file_lines = read_a2m file_lines \<and>
   script_remove_query_gaps sequences = remove_query_gaps sequences \<and>
   script_write_a2m sequences = write_a2m sequences"
proof (intro conjI)
  show "script_read_a2m file_lines = read_a2m file_lines"
    by (simp add: script_read_a2m_def read_a2m_def script_read_a2m_loop_eq)
  show "script_remove_query_gaps sequences = remove_query_gaps sequences"
  proof (cases sequences)
    case Nil
    then show ?thesis by (simp add: script_remove_query_gaps_def)
  next
    case (Cons q rest)
    then show ?thesis
      by (cases q) (simp add: script_remove_query_gaps_def script_clean_loop_eq)
  qed
  show "script_write_a2m sequences = write_a2m sequences"
    by (simp add: script_write_a2m_eq write_a2m_def)
qed

section \<open>Records too short for a retained column\<close>

text \<open>
  C2 (as amended). When some retained column index computed from the reference lies
  outside a record after the reference, that record is shorter than the reference,
  \<^const>\<open>remove_query_gaps\<close> raises \<^const>\<open>IndexError\<close> and returns no (truncated) result,
  and the cleaning stage of \<^verbatim>\<open>convert_a3m_to_a2m\<close> raises the same error before it
  reaches \<^verbatim>\<open>write_a2m\<close>, so the store is left as it was.
\<close>

theorem short_record_raises_index_error:
  assumes "(header, seq) \<in> set rest"
    and "i \<in> set (non_gap_positions query_seq)"
    and "length seq \<le> i"
  shows "length seq < length query_seq \<and>
         remove_query_gaps ((query_header, query_seq) # rest) = Inl IndexError \<and>
         (\<forall>fs a2m_file text.
            fs a2m_file = Some text \<and>
            read_a2m (iter_lines text) = (query_header, query_seq) # rest \<longrightarrow>
            clean_converted fs a2m_file = (Inl IndexError, fs))"
proof -
  from assms(2) have "i < length query_seq" by (rule non_gap_positions_lt)
  with assms(3) have shorter: "length seq < length query_seq" by simp
  from assms
  have "\<exists>r\<in>set ((query_header, query_seq) # rest).
          \<exists>i\<in>set (non_gap_positions query_seq). length (snd r) \<le> i"
    by force
  then have raise: "remove_query_gaps ((query_header, query_seq) # rest) = Inl IndexError"
    by (rule remove_query_gaps_Inl)
  with shorter show ?thesis
    using clean_converted_raises[OF _ _ raise] by blast
qed

theorem short_record_raises_index_error_witness:
  "length ''AB'' < length ''A-C'' \<and>
   remove_query_gaps [(''>ref'', ''A-C''), (''>s1'', ''AB'')] = Inl IndexError \<and>
   clean_converted (\<lambda>p. if p = ''x.a2m'' then Some ''>ref\<newline>A-C\<newline>>s1\<newline>AB\<newline>'' else None) ''x.a2m'' =
     (Inl IndexError, \<lambda>p. if p = ''x.a2m'' then Some ''>ref\<newline>A-C\<newline>>s1\<newline>AB\<newline>'' else None)"
proof -
  let ?fs = "\<lambda>p. if p = ''x.a2m'' then Some ''>ref\<newline>A-C\<newline>>s1\<newline>AB\<newline>'' else None"
  have h1: "(''>s1'', ''AB'') \<in> set [(''>s1'', ''AB'')]" by simp
  have h2: "2 \<in> set (non_gap_positions ''A-C'')"
    by (simp add: non_gap_positions_def is_gap_def)
  have h3: "length ''AB'' \<le> 2" by simp
  have stored: "?fs ''x.a2m'' = Some ''>ref\<newline>A-C\<newline>>s1\<newline>AB\<newline>''" by simp
  have parse: "read_a2m (iter_lines ''>ref\<newline>A-C\<newline>>s1\<newline>AB\<newline>'') =
               (''>ref'', ''A-C'') # [(''>s1'', ''AB'')]"
    by (simp add: iter_lines_def read_a2m_def rstrip_nl_def)
  note t = short_record_raises_index_error[OF h1 h2 h3, of "''>ref''"]
  from t have shorter: "length ''AB'' < length ''A-C''"
    by (rule conjunct1)
  from t have raise: "remove_query_gaps [(''>ref'', ''A-C''), (''>s1'', ''AB'')] = Inl IndexError"
    by (rule conjunct2[THEN conjunct1])
  have "clean_converted ?fs ''x.a2m'' = (Inl IndexError, ?fs)"
    by (rule t[THEN conjunct2, THEN conjunct2, rule_format, of ?fs "''x.a2m''"
          "''>ref\<newline>A-C\<newline>>s1\<newline>AB\<newline>''", OF conjI[OF stored parse]])
  with raise have "remove_query_gaps [(''>ref'', ''A-C''), (''>s1'', ''AB'')] = Inl IndexError \<and>
      clean_converted ?fs ''x.a2m'' = (Inl IndexError, ?fs)"
    by (rule conjI)
  with shorter show ?thesis by (rule conjI)
qed

text \<open>
  The claim as stated fails: being shorter than the reference is not enough for the
  error. Behind the last retained column the reference may hold gaps only; a record
  that ends there is read in range, no error is raised, and the cleaning stage writes
  the filtered alignment.
\<close>

theorem shorter_record_behind_trailing_gaps:
  "length ''AC'' < length ''AC--'' \<and>
   remove_query_gaps [(''>ref'', ''AC--''), (''>s1'', ''AC'')] =
     Inr [(''>ref'', ''AC''), (''>s1'', ''AC'')] \<and>
   clean_converted
       (\<lambda>p. if p = ''x.a2m'' then Some ''>ref\<newline>AC--\<newline>>s1\<newline>AC\<newline>'' else None) ''x.a2m'' =
     (Inr (), \<lambda>p. if p = ''x.a2m'' then Some ''>ref\<newline>AC\<newline>>s1\<newline>AC\<newline>'' else None)"
proof -
  have parse: "read_a2m (iter_lines ''>ref\<newline>AC--\<newline>>s1\<newline>AC\<newline>'') =
               [(''>ref'', ''AC--''), (''>s1'', ''AC'')]"
    by (simp add: iter_lines_def read_a2m_def rstrip_nl_def)
  have filt: "remove_query_gaps [(''>ref'', ''AC--''), (''>s1'', ''AC'')] =
     Inr [(''>ref'', ''AC''), (''>s1'', ''AC'')]"
    by (simp add: non_gap_positions_def is_gap_def getitem_def)
  have out: "write_a2m [(''>ref'', ''AC''), (''>s1'', ''AC'')] = ''>ref\<newline>AC\<newline>>s1\<newline>AC\<newline>''"
    by (simp add: write_a2m_def write_record_def chunk_loop.simps slice_def)
  have "clean_converted
       (\<lambda>p. if p = ''x.a2m'' then Some ''>ref\<newline>AC--\<newline>>s1\<newline>AC\<newline>'' else None) ''x.a2m'' =
     (Inr (), \<lambda>p. if p = ''x.a2m'' then Some ''>ref\<newline>AC\<newline>>s1\<newline>AC\<newline>'' else None)"
    by (auto simp add: clean_converted_def parse filt out simp del: remove_query_gaps.simps)
  with filt show ?thesis by simp
qed

section \<open>Records longer than the reference\<close>

text \<open>
  C9 (as amended). When every record is long enough for every retained column index and
  the record at position \<open>k\<close> after the reference is strictly longer than the
  reference, \<^const>\<open>remove_query_gaps\<close> returns; the output record at that position keeps
  the header and holds the characters of the record at the retained indices only, so
  its length is the retained-column count, and the columns beyond the reference's
  length are dropped without notice: cutting the record to the reference's length first
  gives the same output.
\<close>

theorem longer_record_truncated:
  assumes "\<forall>r\<in>set ((query_header, query_seq) # rest).
             \<forall>i\<in>set (non_gap_positions query_seq). i < length (snd r)"
    and "k < length rest"
    and "rest ! k = (header, seq)"
    and "length query_seq < length seq"
  shows "\<exists>cleaned.
           remove_query_gaps ((query_header, query_seq) # rest) = Inr cleaned \<and>
           cleaned ! Suc k = (header, map ((!) seq) (non_gap_positions query_seq)) \<and>
           length (snd (cleaned ! Suc k)) =
             length (filter (\<lambda>c. c \<noteq> CHR ''.'' \<and> c \<noteq> CHR ''-'') query_seq) \<and>
           remove_query_gaps
             ((query_header, query_seq) # rest[k := (header, take (length query_seq) seq)]) =
               Inr cleaned"
proof -
  let ?ps = "non_gap_positions query_seq"
  let ?q = "(query_header, query_seq)"
  let ?out = "map (project ?ps) (?q # rest)"
  let ?x = "(header, take (length query_seq) seq)"
  have run: "remove_query_gaps (?q # rest) = Inr ?out"
    using assms(1) remove_query_gaps_Inr_iff[of query_header query_seq rest ?out] by blast
  have kth: "?out ! Suc k = (header, map ((!) seq) ?ps)"
    using assms(2,3) by simp
  have count: "length (snd (?out ! Suc k)) =
      length (filter (\<lambda>c. c \<noteq> CHR ''.'' \<and> c \<noteq> CHR ''-'') query_seq)"
    by (simp only: kth snd_conv length_map length_non_gap_positions is_gap_def de_Morgan_disj)
  have px: "project ?ps ?x = project ?ps (rest ! k)"
    using project_take[of ?ps "length query_seq" header seq] assms(3)
    by (simp add: non_gap_positions_lt)
  have "map (project ?ps) (rest[k := ?x]) = (map (project ?ps) rest)[k := project ?ps (rest ! k)]"
    by (simp only: map_update px)
  also have "\<dots> = map (project ?ps) rest"
    using assms(2) by (simp add: list_update_same_conv)
  finally have same: "map (project ?ps) (?q # rest[k := ?x]) = ?out" by simp
  have inx: "\<forall>i\<in>set ?ps. i < length (snd ?x)"
    using assms(4) by (simp add: non_gap_positions_lt)
  have "\<forall>i\<in>set ?ps. i < length (snd r)" if r: "r \<in> set (?q # rest[k := ?x])" for r
  proof -
    from r set_update_subset_insert[of rest k ?x]
    have "r = ?x \<or> r \<in> set (?q # rest)" by auto
    with inx assms(1) show ?thesis by blast
  qed
  then have "\<forall>r\<in>set (?q # rest[k := ?x]). \<forall>i\<in>set ?ps. i < length (snd r)"
    by blast
  then have "remove_query_gaps (?q # rest[k := ?x]) =
      Inr (map (project ?ps) (?q # rest[k := ?x]))"
    using remove_query_gaps_Inr_iff[of query_header query_seq "rest[k := ?x]"
        "map (project ?ps) (?q # rest[k := ?x])"]
    by blast
  then have run': "remove_query_gaps (?q # rest[k := ?x]) = Inr ?out"
    by (simp only: same)
  from run kth count run' show ?thesis by blast
qed

theorem longer_record_truncated_witness:
  "remove_query_gaps [(''>ref'', ''A-C''), (''>s1'', ''ABCDE'')] =
     Inr [(''>ref'', ''AC''), (''>s1'', ''AC'')] \<and>
   remove_query_gaps [(''>ref'', ''A-C''), (''>s1'', ''ABC'')] =
     Inr [(''>ref'', ''AC''), (''>s1'', ''AC'')]"
proof -
  have ps: "non_gap_positions ''A-C'' = [0, 2]"
    by (simp add: non_gap_positions_def is_gap_def)
  have h1: "\<forall>r\<in>set ((''>ref'', ''A-C'') # [(''>s1'', ''ABCDE'')]).
             \<forall>i\<in>set (non_gap_positions ''A-C''). i < length (snd r)"
    by (simp add: ps)
  have h2: "0 < length [(''>s1'', ''ABCDE'')]" by simp
  have h3: "[(''>s1'', ''ABCDE'')] ! 0 = (''>s1'', ''ABCDE'')" by simp
  have h4: "length ''A-C'' < length ''ABCDE''" by simp
  from longer_record_truncated[OF h1 h2 h3 h4]
  obtain cleaned where
    run: "remove_query_gaps [(''>ref'', ''A-C''), (''>s1'', ''ABCDE'')] = Inr cleaned" and
    run': "remove_query_gaps
             ((''>ref'', ''A-C'') # [(''>s1'', ''ABCDE'')][0 := (''>s1'', take (length ''A-C'') ''ABCDE'')]) =
           Inr cleaned"
    by blast
  have "remove_query_gaps [(''>ref'', ''A-C''), (''>s1'', ''ABCDE'')] =
     Inr [(''>ref'', ''AC''), (''>s1'', ''AC'')]"
    by (simp add: ps getitem_def)
  with run have c: "cleaned = [(''>ref'', ''AC''), (''>s1'', ''AC'')]" by simp
  from run' have "remove_query_gaps [(''>ref'', ''A-C''), (''>s1'', ''ABC'')] = Inr cleaned"
    by (simp del: remove_query_gaps.simps)
  with run c show ?thesis by simp
qed

text \<open>
  The claim as stated fails: a longer record does not make the call succeed when another
  record is too short.
\<close>

theorem longer_record_with_short_sibling_raises:
  "length ''AC'' < length ''ACGT'' \<and>
   remove_query_gaps [(''>ref'', ''AC''), (''>long'', ''ACGT''), (''>short'', ''A'')] =
     Inl IndexError"
  by (simp add: non_gap_positions_def is_gap_def getitem_def)

section \<open>Reference without gaps\<close>

text \<open>
  C5 (as amended). When the reference holds neither \<^verbatim>\<open>.\<close> nor \<^verbatim>\<open>-\<close>,
  \<^const>\<open>remove_query_gaps\<close> returns the alignment unchanged exactly when every other
  record has the reference's length; in that case the cleaning stage writes the parsed
  alignment back as \<^const>\<open>write_a2m\<close> formats it, every header and sequence unchanged.
\<close>

theorem gap_free_reference_identity:
  assumes "\<forall>c\<in>set query_seq. c \<noteq> CHR ''.'' \<and> c \<noteq> CHR ''-''"
  shows "(remove_query_gaps ((query_header, query_seq) # rest) =
            Inr ((query_header, query_seq) # rest)) =
         (\<forall>r\<in>set rest. length (snd r) = length query_seq) \<and>
         ((\<forall>r\<in>set rest. length (snd r) = length query_seq) \<longrightarrow>
          (\<forall>fs a2m_file text.
             fs a2m_file = Some text \<and>
             read_a2m (iter_lines text) = (query_header, query_seq) # rest \<longrightarrow>
             clean_converted fs a2m_file =
               (Inr (), fs(a2m_file \<mapsto> write_a2m (read_a2m (iter_lines text))))))"
proof -
  let ?n = "length query_seq"
  let ?q = "(query_header, query_seq)"
  from assms have ps: "non_gap_positions query_seq = [0..<?n]"
    by (intro non_gap_positions_gap_free) (simp add: is_gap_def)
  have each: "(\<forall>i\<in>set [0..<?n]. i < length (snd r)) \<and> project [0..<?n] r = r \<longleftrightarrow>
              length (snd r) = ?n" for r
    using project_upt_iff[of ?n "snd r" "fst r"] by simp
  have "remove_query_gaps (?q # rest) = Inr (?q # rest) \<longleftrightarrow>
        (\<forall>r\<in>set (?q # rest). \<forall>i\<in>set [0..<?n]. i < length (snd r)) \<and>
        map (project [0..<?n]) (?q # rest) = map id (?q # rest)"
    using remove_query_gaps_Inr_iff[of query_header query_seq rest "?q # rest"]
    by (simp only: ps list.map_id id_apply) metis
  also have "\<dots> \<longleftrightarrow> (\<forall>r\<in>set (?q # rest).
        (\<forall>i\<in>set [0..<?n]. i < length (snd r)) \<and> project [0..<?n] r = r)"
    by (simp only: map_eq_conv id_apply) blast
  also have "\<dots> \<longleftrightarrow> (\<forall>r\<in>set (?q # rest). length (snd r) = ?n)"
    by (simp only: each)
  also have "\<dots> \<longleftrightarrow> (\<forall>r\<in>set rest. length (snd r) = ?n)"
    by simp
  finally have iff: "(remove_query_gaps (?q # rest) = Inr (?q # rest)) =
      (\<forall>r\<in>set rest. length (snd r) = ?n)" .
  have written: "clean_converted fs a2m_file =
               (Inr (), fs(a2m_file \<mapsto> write_a2m (read_a2m (iter_lines content))))"
    if eq: "\<forall>r\<in>set rest. length (snd r) = ?n"
      and stored: "fs a2m_file = Some content"
      and parse: "read_a2m (iter_lines content) = ?q # rest"
    for fs a2m_file content
  proof -
    from eq iff have "remove_query_gaps (?q # rest) = Inr (?q # rest)" by blast
    from clean_converted_writes[of fs a2m_file content, OF stored parse this] show ?thesis
      by (simp only: parse)
  qed
  from iff written show ?thesis by blast
qed

theorem gap_free_reference_identity_witness:
  "remove_query_gaps [(''>ref'', ''ACGT''), (''>s1'', ''AGGA'')] =
     Inr [(''>ref'', ''ACGT''), (''>s1'', ''AGGA'')] \<and>
   clean_converted
       (\<lambda>p. if p = ''x.a2m'' then Some ''>ref\<newline>ACGT\<newline>>s1\<newline>AGGA\<newline>'' else None) ''x.a2m'' =
     (Inr (), \<lambda>p. if p = ''x.a2m'' then Some ''>ref\<newline>ACGT\<newline>>s1\<newline>AGGA\<newline>'' else None)"
proof -
  let ?fs = "\<lambda>p. if p = ''x.a2m'' then Some ''>ref\<newline>ACGT\<newline>>s1\<newline>AGGA\<newline>'' else None"
  have gap_free: "\<forall>c\<in>set ''ACGT''. c \<noteq> CHR ''.'' \<and> c \<noteq> CHR ''-''" by simp
  have lens: "\<forall>r\<in>set [(''>s1'', ''AGGA'')]. length (snd r) = length ''ACGT''" by simp
  have stored: "?fs ''x.a2m'' = Some ''>ref\<newline>ACGT\<newline>>s1\<newline>AGGA\<newline>''" by simp
  have parse: "read_a2m (iter_lines ''>ref\<newline>ACGT\<newline>>s1\<newline>AGGA\<newline>'') =
               (''>ref'', ''ACGT'') # [(''>s1'', ''AGGA'')]"
    by (simp add: iter_lines_def read_a2m_def rstrip_nl_def)
  have out: "write_a2m ((''>ref'', ''ACGT'') # [(''>s1'', ''AGGA'')]) =
             ''>ref\<newline>ACGT\<newline>>s1\<newline>AGGA\<newline>''"
    by (simp add: write_a2m_def write_record_def chunk_loop.simps slice_def)
  note t = gap_free_reference_identity[OF gap_free, of "''>ref''" "[(''>s1'', ''AGGA'')]"]
  from t lens have run: "remove_query_gaps [(''>ref'', ''ACGT''), (''>s1'', ''AGGA'')] =
     Inr [(''>ref'', ''ACGT''), (''>s1'', ''AGGA'')]"
    by (simp only: simp_thms)
  have "clean_converted ?fs ''x.a2m'' =
      (Inr (), ?fs(''x.a2m'' \<mapsto>
         write_a2m (read_a2m (iter_lines ''>ref\<newline>ACGT\<newline>>s1\<newline>AGGA\<newline>''))))"
    by (rule t[THEN conjunct2, rule_format, of ?fs "''x.a2m''"
          "''>ref\<newline>ACGT\<newline>>s1\<newline>AGGA\<newline>''", OF lens[rule_format] conjI[OF stored parse]])
  then have "clean_converted ?fs ''x.a2m'' = (Inr (), ?fs)"
    by (simp only: parse out) (simp add: fun_eq_iff)
  with run show ?thesis by (rule conjI)
qed

text \<open>
  The claim as stated fails: with a gap-free reference a longer record is cut to the
  reference's length, in the returned alignment and in the file written.
\<close>

theorem gap_free_reference_longer_record_changed:
  "remove_query_gaps [(''>ref'', ''AC''), (''>s1'', ''ACGT'')] =
     Inr [(''>ref'', ''AC''), (''>s1'', ''AC'')] \<and>
   clean_converted
       (\<lambda>p. if p = ''x.a2m'' then Some ''>ref\<newline>AC\<newline>>s1\<newline>ACGT\<newline>'' else None) ''x.a2m'' =
     (Inr (), \<lambda>p. if p = ''x.a2m'' then Some ''>ref\<newline>AC\<newline>>s1\<newline>AC\<newline>'' else None)"
proof -
  have parse: "read_a2m (iter_lines ''>ref\<newline>AC\<newline>>s1\<newline>ACGT\<newline>'') =
               [(''>ref'', ''AC''), (''>s1'', ''ACGT'')]"
    by (simp add: iter_lines_def read_a2m_def rstrip_nl_def)
  have filt: "remove_query_gaps [(''>ref'', ''AC''), (''>s1'', ''ACGT'')] =
     Inr [(''>ref'', ''AC''), (''>s1'', ''AC'')]"
    by (simp add: non_gap_positions_def is_gap_def getitem_def)
  have out: "write_a2m [(''>ref'', ''AC''), (''>s1'', ''AC'')] = ''>ref\<newline>AC\<newline>>s1\<newline>AC\<newline>''"
    by (simp add: write_a2m_def write_record_def chunk_loop.simps slice_def)
  have "clean_converted
       (\<lambda>p. if p = ''x.a2m'' then Some ''>ref\<newline>AC\<newline>>s1\<newline>ACGT\<newline>'' else None) ''x.a2m'' =
     (Inr (), \<lambda>p. if p = ''x.a2m'' then Some ''>ref\<newline>AC\<newline>>s1\<newline>AC\<newline>'' else None)"
    by (auto simp add: clean_converted_def parse filt out simp del: remove_query_gaps.simps)
  with filt show ?thesis by (rule conjI)
qed

end
